theory Spec2Isabelle
  imports Complex_Main "HOL-Library.AList"
begin

section \<open>The simplex tableau of \<^verbatim>\<open>src/simplex.py\<close>\<close>

text \<open>
  The class \<^verbatim>\<open>Tableau\<close> is embedded as a record and its methods as functions that take
  the object and return the updated object, or the exception they raise.

  Numbers. The entries of the tableau are \<^verbatim>\<open>float64\<close> values in the source. Here they
  are rationals and the arithmetic is exact: every finite \<^verbatim>\<open>float64\<close> is a rational, but
  rounding, infinities and NaN are outside this development. The only NaNs the source makes
  itself, the masked entries of \<^verbatim>\<open>quotients\<close> in \<^verbatim>\<open>find_pivot\<close>, are \<open>None\<close>.
\<close>

subsection \<open>Exceptions\<close>

datatype error =
    TypeError_dtype      \<comment> \<open>\<^verbatim>\<open>raise TypeError("Tableau must have type float64")\<close>\<close>
  | ValueError_RHS       \<comment> \<open>\<^verbatim>\<open>raise ValueError("RHS must be > 0")\<close>\<close>
  | ValueError_n_vars    \<comment> \<open>\<^verbatim>\<open>raise ValueError("number of (artificial) variables ...")\<close>\<close>
  | ValueError_argmax    \<comment> \<open>\<^verbatim>\<open>np.argmax\<close> of an empty sequence\<close>
  | ValueError_full      \<comment> \<open>\<^verbatim>\<open>np.full\<close> with a negative size\<close>
  | ValueError_nanargmin \<comment> \<open>\<^verbatim>\<open>np.nanargmin\<close> of a sequence with no entry other than NaN\<close>
  | IndexError           \<comment> \<open>an index out of range, or \<^verbatim>\<open>pop\<close> from an empty list\<close>
  | NonFinite            \<comment> \<open>no exception: \<^verbatim>\<open>1 / piv_val\<close> with \<^verbatim>\<open>piv_val == 0\<close> is
                             infinite, and the exact arithmetic used here stops\<close>

subsection \<open>Two-dimensional arrays\<close>

datatype dtype = float64 | float32 | int64

text \<open>
  A two-dimensional \<^verbatim>\<open>np.ndarray\<close>: its \<^verbatim>\<open>dtype\<close>, its \<^verbatim>\<open>shape[1]\<close> and its rows
  (\<^verbatim>\<open>shape[0]\<close> is their number). In an array every row has \<^verbatim>\<open>shape[1]\<close> entries.
\<close>

record ndarray =
  dtype :: dtype
  n_cols :: nat
  rows :: "rat list list"


text \<open>The index a slice bound \<open>i\<close> stands for in a sequence of length \<open>L\<close>.\<close>

definition slice_idx :: "int \<Rightarrow> nat \<Rightarrow> nat" where
  "slice_idx i L = (if i < 0 then nat (max (i + int L) 0) else min (nat i) L)"

text \<open>\<^verbatim>\<open>np.delete(xs, slice(a, b))\<close> along one axis.\<close>

definition delete_slice :: "int \<Rightarrow> int \<Rightarrow> 'a list \<Rightarrow> 'a list" where
  "delete_slice a b xs =
     (let s = slice_idx a (length xs); e = slice_idx b (length xs)
      in if s < e then take s xs @ drop e xs else xs)"

text \<open>\<^verbatim>\<open>np.argmax\<close>: the first index of the greatest entry.\<close>

fun argmax_from :: "rat list \<Rightarrow> nat \<Rightarrow> nat \<Rightarrow> rat \<Rightarrow> nat" where
  "argmax_from [] i b v = b"
| "argmax_from (x # xs) i b v =
     (if v < x then argmax_from xs (Suc i) i x else argmax_from xs (Suc i) b v)"

fun argmax :: "rat list \<Rightarrow> error + nat" where
  "argmax [] = Inl ValueError_argmax"
| "argmax (x # xs) = Inr (argmax_from xs 1 0 x)"

text \<open>\<^verbatim>\<open>np.nanargmin\<close>: the first index of the least entry that is not NaN.\<close>

fun nanargmin_from :: "rat option list \<Rightarrow> nat \<Rightarrow> (nat \<times> rat) option \<Rightarrow> (nat \<times> rat) option" where
  "nanargmin_from [] i best = best"
| "nanargmin_from (None # qs) i best = nanargmin_from qs (Suc i) best"
| "nanargmin_from (Some q # qs) i None = nanargmin_from qs (Suc i) (Some (i, q))"
| "nanargmin_from (Some q # qs) i (Some (b, v)) =
     (if q < v then nanargmin_from qs (Suc i) (Some (i, q))
      else nanargmin_from qs (Suc i) (Some (b, v)))"

definition nanargmin :: "rat option list \<Rightarrow> error + nat" where
  "nanargmin qs =
     (case nanargmin_from qs 0 None of
        None \<Rightarrow> Inl ValueError_nanargmin
      | Some (b, v) \<Rightarrow> Inr b)"

text \<open>
  \<^verbatim>\<open>np.divide(dividend, divisor, out=nans, where=divisor > 0)\<close>: the quotient where the
  divisor is positive, the NaN of \<^verbatim>\<open>nans\<close> elsewhere.
\<close>

definition divide_where_pos :: "rat list \<Rightarrow> rat list \<Rightarrow> rat option list" where
  "divide_where_pos dividend divisor =
     map2 (\<lambda>d v. if 0 < v then Some (d / v) else None) dividend divisor"

subsection \<open>The class\<close>

text \<open>
  The fields of a \<^verbatim>\<open>Tableau\<close>. The source also keeps \<^verbatim>\<open>n_rows\<close>: it is set to
  \<^verbatim>\<open>tableau.shape[0]\<close> by \<^verbatim>\<open>__init__\<close> and decremented by \<^verbatim>\<open>change_stage\<close> right after
  that method deletes one row of \<^verbatim>\<open>tableau\<close>, and nothing else writes either of them, so
  it is read off the tableau here. The objectives are the strings of the source.
\<close>

record Tableau =
  tableau :: ndarray
  n_vars :: int
  n_artificial_vars :: int
  n_stages :: nat
  n_slack :: int
  objectives :: "string list"
  col_titles :: "string list"
  row_idx :: "nat option"
  col_idx :: "nat option"
  stop_iter :: bool

definition n_rows :: "Tableau \<Rightarrow> nat" where
  "n_rows t = length (rows (tableau t))"

definition maxiter :: nat where
  "maxiter = 100"

text \<open>The decimal numeral that an f-string prints for a natural number.\<close>

definition digit :: "nat \<Rightarrow> char" where
  "digit d = ''0123456789'' ! d"

fun str_nat :: "nat \<Rightarrow> string" where
  "str_nat n =
     (if n < 10 then [digit n]
      else str_nat (n div 10) @ [digit (n mod 10)])"

declare str_nat.simps [simp del]

text \<open>\<^verbatim>\<open>generate_col_titles\<close> reads \<^verbatim>\<open>self.n_vars\<close> and \<^verbatim>\<open>self.n_slack\<close>, its arguments here.\<close>

definition generate_col_titles :: "int \<Rightarrow> int \<Rightarrow> string list" where
  "generate_col_titles nv ns =
     map (\<lambda>i. ''x'' @ str_nat (i + 1)) [0..<nat nv] @
     map (\<lambda>i. ''s'' @ str_nat (i + 1)) [0..<nat ns] @
     [''RHS'']"

text \<open>
  \<^verbatim>\<open>__init__\<close>. The three checks come in the order of the source; \<^verbatim>\<open>tableau[:, -1]\<close> raises
  \<^verbatim>\<open>IndexError\<close> on an array with no column.
\<close>

definition init :: "ndarray \<Rightarrow> int \<Rightarrow> int \<Rightarrow> error + Tableau" where
  "init a nv na =
     (if dtype a \<noteq> float64 then Inl TypeError_dtype
      else if n_cols a = 0 then Inl IndexError
      else if \<not> list_all (\<lambda>r. 0 \<le> last r) (rows a) then Inl ValueError_RHS
      else if nv < 2 \<or> na < 0 then Inl ValueError_n_vars
      else Inr \<lparr>
        tableau = a,
        n_vars = nv,
        n_artificial_vars = na,
        n_stages = (if 0 < na then 1 else 0) + 1,
        n_slack = int (n_cols a) - nv - na - 1,
        objectives = (if na = 0 then [''max''] else [''min'', ''max'']),
        col_titles = generate_col_titles nv (int (n_cols a) - nv - na - 1),
        row_idx = None,
        col_idx = None,
        stop_iter = False \<rparr>)"

text \<open>
  \<^verbatim>\<open>find_pivot\<close> returns the object (only \<^verbatim>\<open>stop_iter\<close> can have changed) and the pair
  of indices.
\<close>

definition sign_of :: "string \<Rightarrow> rat" where
  "sign_of objective =
     (if objective = ''min'' then 1 else 0) - (if objective = ''max'' then 1 else 0)"

definition find_pivot :: "Tableau \<Rightarrow> error + (Tableau \<times> nat \<times> nat)" where
  "find_pivot t =
     (if objectives t = [] then Inl IndexError
      else
        let sign = sign_of (last (objectives t)) in
        (case rows (tableau t) of
           [] \<Rightarrow> Inl IndexError
         | row0 # _ \<Rightarrow>
            (case argmax (map (\<lambda>x. sign * x) (butlast row0)) of
               Inl e \<Rightarrow> Inl e
             | Inr col \<Rightarrow>
                (if sign * row0 ! col \<le> 0 then Inr (t\<lparr>stop_iter := True\<rparr>, 0, 0)
                 else
                   let s = drop (n_stages t) (rows (tableau t));
                       dividend = map last s;
                       divisor = map (\<lambda>r. r ! col) s
                   in (if n_rows t < n_stages t then Inl ValueError_full
                       else (case nanargmin (divide_where_pos dividend divisor) of
                               Inl e \<Rightarrow> Inl e
                             | Inr k \<Rightarrow> Inr (t, k + n_stages t, col)))))))"

text \<open>
  \<^verbatim>\<open>pivot\<close>. The loop reads \<^verbatim>\<open>coeff\<close> from row \<^verbatim>\<open>idx\<close> before it changes that row, so
  every row, the pivot row too, has \<^verbatim>\<open>coeff * piv_row\<close> subtracted with its own old
  coefficient; the pivot row is then overwritten with \<^verbatim>\<open>piv_row\<close>.
\<close>

definition pivot :: "Tableau \<Rightarrow> nat \<Rightarrow> nat \<Rightarrow> error + Tableau" where
  "pivot t r c =
     (let a = tableau t in
      if length (rows a) \<le> r \<or> n_cols a \<le> c then Inl IndexError
      else
        let piv_val = rows a ! r ! c in
        if piv_val = 0 then Inl NonFinite
        else
          let piv_row = map (\<lambda>x. x * (1 / piv_val)) (rows a ! r);
              swept = map (\<lambda>row. map2 (\<lambda>x p. x + - (row ! c) * p) row piv_row) (rows a)
          in Inr (t\<lparr>tableau := a\<lparr>rows := swept[r := piv_row]\<rparr>\<rparr>))"

text \<open>
  \<^verbatim>\<open>change_stage\<close>. \<^verbatim>\<open>np.delete\<close> along axis 1 removes the columns of the slice
  \<^verbatim>\<open>slice(-n_artificial_vars - 1, -1)\<close>; along axis 0 it raises \<^verbatim>\<open>IndexError\<close> when there is
  no row 0.
\<close>

definition change_stage :: "Tableau \<Rightarrow> error + Tableau" where
  "change_stage t =
     (if objectives t = [] then Inl IndexError
      else
        let objs = butlast (objectives t) in
        if objs = [] then Inr (t\<lparr>objectives := objs\<rparr>)
        else
          let a = tableau t;
              lo = - n_artificial_vars t - 1;
              cut = map (delete_slice lo (- 1)) (rows a);
              width = length (delete_slice lo (- 1) (replicate (n_cols a) (0::rat)))
          in if cut = [] then Inl IndexError
             else Inr (t\<lparr>
               tableau := a\<lparr>n_cols := width, rows := tl cut\<rparr>,
               objectives := objs,
               n_stages := 1,
               n_artificial_vars := 0,
               stop_iter := False \<rparr>))"

text \<open>
  \<^verbatim>\<open>interpret_tableau\<close>. The dictionary is the list of its items in insertion order;
  assigning to a key that is present replaces its value in place, as \<^const>\<open>AList.update\<close>
  does.
\<close>

type_synonym dict = "(string \<times> rat) list"

definition nonzero :: "rat list \<Rightarrow> nat list" where
  "nonzero xs = filter (\<lambda>k. xs ! k \<noteq> 0) [0..<length xs]"

fun interpret_loop :: "Tableau \<Rightarrow> nat list \<Rightarrow> dict \<Rightarrow> error + dict" where
  "interpret_loop t [] output_dict = Inr output_dict"
| "interpret_loop t (i # is) output_dict =
     (if n_cols (tableau t) \<le> i then Inl IndexError
      else
        let nz = nonzero (map (\<lambda>r. r ! i) (rows (tableau t))) in
        if length nz = 1 \<and> rows (tableau t) ! (nz ! 0) ! i = 1 then
          let rhs_val = last (rows (tableau t) ! (nz ! 0)) in
          if length (col_titles t) \<le> i then Inl IndexError
          else interpret_loop t is (AList.update (col_titles t ! i) rhs_val output_dict)
        else interpret_loop t is output_dict)"

definition interpret_tableau :: "Tableau \<Rightarrow> error + dict" where
  "interpret_tableau t =
     (case rows (tableau t) of
        [] \<Rightarrow> Inl IndexError
      | row0 # _ \<Rightarrow>
         if n_cols (tableau t) = 0 then Inl IndexError
         else interpret_loop t [0..<nat (n_vars t)] [(''P'', \<bar>last row0\<bar>)])"

text \<open>
  \<^verbatim>\<open>run_simplex\<close>: the \<^verbatim>\<open>for\<close> loop over \<^verbatim>\<open>range(self.maxiter)\<close>, by the number of
  iterations left, and \<^verbatim>\<open>return {}\<close> after it. \<open>iteration\<close> is the body of the loop
  below the test of \<^verbatim>\<open>self.objectives\<close>.
\<close>

definition iteration :: "Tableau \<Rightarrow> error + Tableau" where
  "iteration t =
     (case find_pivot t of
        Inl e \<Rightarrow> Inl e
      | Inr (t', row, col) \<Rightarrow> if stop_iter t' then change_stage t' else pivot t' row col)"

fun run_loop :: "nat \<Rightarrow> Tableau \<Rightarrow> error + dict" where
  "run_loop 0 t = Inr []"
| "run_loop (Suc n) t =
     (if objectives t = [] then interpret_tableau t
      else (case iteration t of Inl e \<Rightarrow> Inl e | Inr t' \<Rightarrow> run_loop n t'))"

definition run_simplex :: "Tableau \<Rightarrow> error + dict" where
  "run_simplex t = run_loop maxiter t"

subsection \<open>Notions used in the statements\<close>

text \<open>
  The entry in row \<open>i\<close> and column \<open>j\<close> of the tableau, and the right-hand side of
  row \<open>i\<close> (the source's \<^verbatim>\<open>tableau[i, -1]\<close>).
\<close>

abbreviation entry :: "Tableau \<Rightarrow> nat \<Rightarrow> nat \<Rightarrow> rat" where
  "entry t i j \<equiv> rows (tableau t) ! i ! j"

abbreviation rhs :: "Tableau \<Rightarrow> nat \<Rightarrow> rat" where
  "rhs t i \<equiv> last (rows (tableau t) ! i)"

text \<open>
  The two intermediate arrays of \<^verbatim>\<open>find_pivot\<close>: \<^verbatim>\<open>sign * self.tableau[0, :-1]\<close>, and
  \<^verbatim>\<open>quotients\<close> for an entering column.
\<close>

definition signed_objective :: "Tableau \<Rightarrow> rat list" where
  "signed_objective t =
     map (\<lambda>x. sign_of (last (objectives t)) * x) (butlast (hd (rows (tableau t))))"

definition quotients :: "Tableau \<Rightarrow> nat \<Rightarrow> rat option list" where
  "quotients t c =
     divide_where_pos (map last (drop (n_stages t) (rows (tableau t))))
       (map (\<lambda>r. r ! c) (drop (n_stages t) (rows (tableau t))))"

text \<open>
  \<open>first_min qs k v\<close>: \<open>k\<close> is the first index at which the sequence \<open>qs\<close> has its least
  entry that is not NaN, and \<open>v\<close> is that entry. \<open>best_ok\<close> is the invariant of the search.
\<close>

definition first_min :: "rat option list \<Rightarrow> nat \<Rightarrow> rat \<Rightarrow> bool" where
  "first_min qs k v \<longleftrightarrow>
     k < length qs \<and> qs ! k = Some v \<and> (\<forall>j<length qs. \<forall>w. qs ! j = Some w \<longrightarrow> v \<le> w) \<and>
     (\<forall>j<k. \<forall>w. qs ! j = Some w \<longrightarrow> v < w)"

definition best_ok :: "rat option list \<Rightarrow> (nat \<times> rat) option \<Rightarrow> bool" where
  "best_ok qs best =
     (case best of None \<Rightarrow> list_all (\<lambda>q. q = None) qs | Some (b, v) \<Rightarrow> first_min qs b v)"

text \<open>
  The object at the start of iteration \<open>n\<close> of the loop of \<^verbatim>\<open>run_simplex\<close>, and \<open>None\<close>
  when the loop has returned or raised before.
\<close>

fun iterate :: "nat \<Rightarrow> Tableau \<Rightarrow> Tableau option" where
  "iterate 0 t = Some t"
| "iterate (Suc n) t =
     (if objectives t = [] then None
      else (case iteration t of Inl e \<Rightarrow> None | Inr t' \<Rightarrow> iterate n t'))"





text \<open>The number a decimal numeral stands for; it is used to tell column titles apart.\<close>

definition digit_value :: "char \<Rightarrow> nat" where
  "digit_value ch = of_char ch - 48"

definition decimal_value :: "string \<Rightarrow> nat" where
  "decimal_value s = foldl (\<lambda>a ch. 10 * a + digit_value ch) 0 s"

text \<open>
  The row of \<^verbatim>\<open>interpret_tableau\<close>'s test on column \<open>i\<close>: the index of the only nonzero entry
  of the column, when there is exactly one and it is 1. \<open>record_column\<close> is one iteration of
  the loop of \<^verbatim>\<open>interpret_tableau\<close> when no index is out of range.
\<close>

definition unit_row :: "Tableau \<Rightarrow> nat \<Rightarrow> nat option" where
  "unit_row t i =
     (let nz = nonzero (map (\<lambda>r. r ! i) (rows (tableau t)))
      in if length nz = 1 \<and> entry t (nz ! 0) i = 1 then Some (nz ! 0) else None)"

definition record_column :: "Tableau \<Rightarrow> nat \<Rightarrow> dict \<Rightarrow> dict" where
  "record_column t i d =
     (case unit_row t i of
        None \<Rightarrow> d
      | Some k \<Rightarrow> AList.update (col_titles t ! i) (rhs t k) d)"

subsection \<open>Concrete tableaux\<close>

text \<open>
  Maximise \<open>3 x1 + 2 x2\<close> subject to \<open>x1 + x2 \<le> 4\<close> and \<open>x1 \<le> 2\<close>: the objective row
  holds the negated coefficients, and each constraint has its slack column.
\<close>

definition lp_tableau :: ndarray where
  "lp_tableau = \<lparr>dtype = float64, n_cols = 5,
     rows = [[- 3, - 2, 0, 0, 0],
             [1, 1, 1, 0, 4],
             [1, 0, 0, 1, 2]]\<rparr>"

definition lp_start :: Tableau where
  "lp_start = \<lparr>tableau = lp_tableau, n_vars = 2, n_artificial_vars = 0, n_stages = 1,
     n_slack = 2, objectives = [''max''],
     col_titles = [''x1'', ''x2'', ''s1'', ''s2'', ''RHS''],
     row_idx = None, col_idx = None, stop_iter = False\<rparr>"


text \<open>
  A two-phase tableau: two decision variables, one artificial variable, no slack variable;
  rows 0 and 1 are the two objective rows and row 2 is the only constraint.
\<close>

definition two_phase_tableau :: ndarray where
  "two_phase_tableau = \<lparr>dtype = float64, n_cols = 4,
     rows = [[- 1, 0, 0, 0],
             [1, 0, 0, 0],
             [1, 0, 1, 1]]\<rparr>"




text \<open>An array with one row and two columns, and the object construction makes of it.\<close>

definition narrow_tableau :: ndarray where
  "narrow_tableau = \<lparr>dtype = float64, n_cols = 2, rows = [[0, 0]]\<rparr>"

definition narrow_start :: Tableau where
  "narrow_start = \<lparr>tableau = narrow_tableau, n_vars = 2, n_artificial_vars = 0,
     n_stages = 1, n_slack = - 1, objectives = [''max''],
     col_titles = [''x1'', ''x2'', ''RHS''],
     row_idx = None, col_idx = None, stop_iter = False\<rparr>"

text \<open>
  An infeasible two-phase problem: the only constraint with an artificial variable reads
  \<open>0 x1 + 0 x2 + a1 = 5\<close>, so the artificial variable cannot leave the basis, and the
  first objective row has the residual 5 as its right-hand side and no coefficient to
  improve it. The columns are \<open>x1\<close>, \<open>x2\<close>, \<open>s1\<close>, \<open>a1\<close> and the right-hand side.
\<close>

definition infeasible_tableau :: ndarray where
  "infeasible_tableau = \<lparr>dtype = float64, n_cols = 5,
     rows = [[0, 0, 0, 0, 5],
             [- 1, - 1, 0, 0, 0],
             [1, 1, 1, 0, 4],
             [0, 0, 0, 1, 5]]\<rparr>"

definition infeasible_start :: Tableau where
  "infeasible_start = \<lparr>tableau = infeasible_tableau, n_vars = 2, n_artificial_vars = 1,
     n_stages = 2, n_slack = 1, objectives = [''min'', ''max''],
     col_titles = [''x1'', ''x2'', ''s1'', ''RHS''],
     row_idx = None, col_idx = None, stop_iter = False\<rparr>"

text \<open>The same object after the stage change.\<close>

definition infeasible_stage2 :: Tableau where
  "infeasible_stage2 = infeasible_start\<lparr>
     tableau := \<lparr>dtype = float64, n_cols = 4,
       rows = [[- 1, - 1, 0, 0],
               [1, 1, 1, 4],
               [0, 0, 0, 5]]\<rparr>,
     objectives := [''min''], n_stages := 1, n_artificial_vars := 0\<rparr>"

text \<open>
  An unbounded problem, the scenario of the specification: one constraint row, whose
  entries in the entering column 0 and in column 1 are \<open>- 1\<close>.
\<close>

definition unbounded_tableau :: ndarray where
  "unbounded_tableau = \<lparr>dtype = float64, n_cols = 4,
     rows = [[- 1, - 1, 0, 0],
             [- 1, - 1, 1, 1]]\<rparr>"

definition unbounded_start :: Tableau where
  "unbounded_start = \<lparr>tableau = unbounded_tableau, n_vars = 2, n_artificial_vars = 0,
     n_stages = 1, n_slack = 1, objectives = [''max''],
     col_titles = [''x1'', ''x2'', ''s1'', ''RHS''],
     row_idx = None, col_idx = None, stop_iter = False\<rparr>"



text \<open>
  A degenerate problem on which the pivot rule of \<^verbatim>\<open>find_pivot\<close> cycles: maximise
  \<open>10 x1 - 57 x2 - 9 x3 - 24 x4\<close> subject to \<open>x1/2 - 11 x2/2 - 5 x3/2 + 9 x4 \<le> 0\<close>,
  \<open>x1/2 - 3 x2/2 - x3/2 + x4 \<le> 0\<close> and \<open>x1 \<le> 1\<close>. After six pivots the tableau is the
  initial one again. Every pivot value is a power of two and every entry a small multiple
  of \<open>1/4\<close>, so the \<^verbatim>\<open>float64\<close> computation is exact too.
\<close>

definition cycling_tableau :: ndarray where
  "cycling_tableau = \<lparr>dtype = float64, n_cols = 8,
     rows = [[- 10, 57, 9, 24, 0, 0, 0, 0],
             [1 / 2, - 11 / 2, - 5 / 2, 9, 1, 0, 0, 0],
             [1 / 2, - 3 / 2, - 1 / 2, 1, 0, 1, 0, 0],
             [1, 0, 0, 0, 0, 0, 1, 1]]\<rparr>"

definition cycling_start :: Tableau where
  "cycling_start = \<lparr>tableau = cycling_tableau, n_vars = 4, n_artificial_vars = 0,
     n_stages = 1, n_slack = 3, objectives = [''max''],
     col_titles = [''x1'', ''x2'', ''x3'', ''x4'', ''s1'', ''s2'', ''s3'', ''RHS''],
     row_idx = None, col_idx = None, stop_iter = False\<rparr>"

text \<open>The tableau of the scenario when \<^verbatim>\<open>run_simplex\<close> calls \<^verbatim>\<open>interpret_tableau\<close>.\<close>

definition lp_final :: Tableau where
  "lp_final = lp_start\<lparr>
     tableau := lp_tableau\<lparr>rows :=
       [[0, 0, 2, 1, 10],
        [0, 1, 1, - 1, 2],
        [1, 0, 0, 1, 2]]\<rparr>,
     objectives := [], stop_iter := True\<rparr>"

section \<open>Evaluation\<close>

lemmas eval_defs =
  iteration_def find_pivot_def pivot_def change_stage_def interpret_tableau_def sign_of_def
  n_rows_def divide_where_pos_def nanargmin_def nonzero_def delete_slice_def slice_idx_def Let_def

lemma run_loop_numeral:
  "run_loop (numeral k) t =
     (if objectives t = [] then interpret_tableau t
      else (case iteration t of Inl e \<Rightarrow> Inl e | Inr t' \<Rightarrow> run_loop (pred_numeral k) t'))"
  by (simp add: numeral_eq_Suc)

lemma init_lp_tableau: "init lp_tableau 2 0 = Inr lp_start"
  by (simp add: init_def lp_tableau_def lp_start_def generate_col_titles_def str_nat.simps
      digit_def upt_rec)

section \<open>The numpy searches\<close>

lemma argmax_from_spec:
  "i = length pre \<Longrightarrow> b < i \<Longrightarrow> pre ! b = v \<Longrightarrow> \<forall>j<i. pre ! j \<le> v \<Longrightarrow> \<forall>j<b. pre ! j < v \<Longrightarrow>
   k = argmax_from xs i b v \<Longrightarrow>
   k < length (pre @ xs) \<and> (\<forall>j<length (pre @ xs). (pre @ xs) ! j \<le> (pre @ xs) ! k) \<and>
     (\<forall>j<k. (pre @ xs) ! j < (pre @ xs) ! k)"
proof (induction xs arbitrary: pre i b v)
  case Nil
  then show ?case by simp
next
  case (Cons x xs)
  show ?case
  proof (cases "v < x")
    case True
    have k: "k = argmax_from xs (Suc i) i x"
      using Cons.prems(6) True by simp
    have "k < length ((pre @ [x]) @ xs) \<and>
      (\<forall>j<length ((pre @ [x]) @ xs). ((pre @ [x]) @ xs) ! j \<le> ((pre @ [x]) @ xs) ! k) \<and>
      (\<forall>j<k. ((pre @ [x]) @ xs) ! j < ((pre @ [x]) @ xs) ! k)"
    proof (rule Cons.IH [where pre = "pre @ [x]" and i = "Suc i" and b = i and v = x])
      show "Suc i = length (pre @ [x])" using Cons.prems(1) by simp
      show "i < Suc i" by simp
      show "(pre @ [x]) ! i = x" using Cons.prems(1) by simp
      show "\<forall>j<Suc i. (pre @ [x]) ! j \<le> x"
        using Cons.prems(1,4) True by (auto simp: nth_append less_Suc_eq)
      show "\<forall>j<i. (pre @ [x]) ! j < x"
        using Cons.prems(1,4) True by (auto simp: nth_append)
      show "k = argmax_from xs (Suc i) i x" by (rule k)
    qed
    then show ?thesis by simp
  next
    case False
    have k: "k = argmax_from xs (Suc i) b v"
      using Cons.prems(6) False by simp
    have "k < length ((pre @ [x]) @ xs) \<and>
      (\<forall>j<length ((pre @ [x]) @ xs). ((pre @ [x]) @ xs) ! j \<le> ((pre @ [x]) @ xs) ! k) \<and>
      (\<forall>j<k. ((pre @ [x]) @ xs) ! j < ((pre @ [x]) @ xs) ! k)"
    proof (rule Cons.IH [where pre = "pre @ [x]" and i = "Suc i" and b = b and v = v])
      show "Suc i = length (pre @ [x])" using Cons.prems(1) by simp
      show "b < Suc i" using Cons.prems(2) by simp
      show "(pre @ [x]) ! b = v" using Cons.prems(1,2,3) by (simp add: nth_append)
      show "\<forall>j<Suc i. (pre @ [x]) ! j \<le> v"
        using Cons.prems(1,4) False by (auto simp: nth_append less_Suc_eq)
      show "\<forall>j<b. (pre @ [x]) ! j < v"
        using Cons.prems(1,2,5) by (auto simp: nth_append)
      show "k = argmax_from xs (Suc i) b v" by (rule k)
    qed
    then show ?thesis by simp
  qed
qed

lemma argmax_spec:
  assumes "xs \<noteq> []"
  shows "\<exists>k. argmax xs = Inr k \<and> k < length xs \<and> (\<forall>j<length xs. xs ! j \<le> xs ! k) \<and>
           (\<forall>j<k. xs ! j < xs ! k)"
proof -
  obtain x ys where xs: "xs = x # ys" using assms by (cases xs) auto
  have "argmax_from ys 1 0 x < length ([x] @ ys) \<and>
      (\<forall>j<length ([x] @ ys). ([x] @ ys) ! j \<le> ([x] @ ys) ! argmax_from ys 1 0 x) \<and>
      (\<forall>j<argmax_from ys 1 0 x. ([x] @ ys) ! j < ([x] @ ys) ! argmax_from ys 1 0 x)"
    by (rule argmax_from_spec [where i = 1 and b = 0 and v = x]) auto
  then show ?thesis using xs by simp
qed


lemma first_min_snoc_None: "first_min qs k v \<Longrightarrow> first_min (qs @ [None]) k v"
  unfolding first_min_def by (simp add: nth_append less_Suc_eq)

lemma first_min_snoc_ge: "first_min qs k v \<Longrightarrow> \<not> q < v \<Longrightarrow> first_min (qs @ [Some q]) k v"
  unfolding first_min_def by (simp add: nth_append less_Suc_eq)

lemma first_min_snoc_less:
  assumes "first_min qs k v" "q < v"
  shows "first_min (qs @ [Some q]) (length qs) q"
proof -
  have "\<forall>j<length qs. \<forall>w. qs ! j = Some w \<longrightarrow> q < w"
    using assms unfolding first_min_def by (meson less_le_trans)
  then show ?thesis
    unfolding first_min_def by (simp add: nth_append less_Suc_eq less_imp_le)
qed

lemma first_min_snoc_first:
  assumes "\<forall>q\<in>set qs. q = None"
  shows "first_min (qs @ [Some q]) (length qs) q"
proof -
  have "\<forall>j<length qs. qs ! j = None"
    using assms by simp
  then show ?thesis
    unfolding first_min_def by (simp add: nth_append less_Suc_eq)
qed

lemma best_ok_None [simp]: "best_ok qs None \<longleftrightarrow> (\<forall>q\<in>set qs. q = None)"
  by (simp add: best_ok_def list_all_iff)

lemma best_ok_Some [simp]: "best_ok qs (Some (b, v)) \<longleftrightarrow> first_min qs b v"
  by (simp add: best_ok_def)

lemma nanargmin_from_spec:
  "i = length pre \<Longrightarrow> best_ok pre best \<Longrightarrow> best_ok (pre @ xs) (nanargmin_from xs i best)"
proof (induction xs i best arbitrary: pre rule: nanargmin_from.induct)
  case (1 i best)
  then show ?case by simp
next
  case (2 qs i best)
  have "best_ok (pre @ [None]) best"
  proof (cases best)
    case None
    then show ?thesis using "2.prems" by simp
  next
    case (Some p)
    then show ?thesis using "2.prems" by (cases p) (simp add: first_min_snoc_None)
  qed
  then have "best_ok ((pre @ [None]) @ qs) (nanargmin_from qs (Suc i) best)"
    using "2.prems"(1) by (intro "2.IH") simp
  then show ?case by simp
next
  case (3 q qs i)
  have "best_ok (pre @ [Some q]) (Some (i, q))"
    using "3.prems" by (simp add: first_min_snoc_first)
  then have "best_ok ((pre @ [Some q]) @ qs) (nanargmin_from qs (Suc i) (Some (i, q)))"
    using "3.prems"(1) by (intro "3.IH") simp
  then show ?case by simp
next
  case (4 q qs i b v)
  show ?case
  proof (cases "q < v")
    case True
    have "best_ok (pre @ [Some q]) (Some (i, q))"
      using "4.prems" True by (simp add: first_min_snoc_less)
    then have "best_ok ((pre @ [Some q]) @ qs) (nanargmin_from qs (Suc i) (Some (i, q)))"
      using "4.prems"(1) True by (intro "4.IH"(1)) simp_all
    then show ?thesis using True by simp
  next
    case False
    have "best_ok (pre @ [Some q]) (Some (b, v))"
      using "4.prems" False by (simp add: first_min_snoc_ge)
    then have "best_ok ((pre @ [Some q]) @ qs) (nanargmin_from qs (Suc i) (Some (b, v)))"
      using "4.prems"(1) False by (intro "4.IH"(2)) simp_all
    then show ?thesis using False by simp
  qed
qed

lemma nanargmin_Inl:
  "nanargmin qs = Inl e \<Longrightarrow> e = ValueError_nanargmin \<and> (\<forall>q\<in>set qs. q = None)"
  using nanargmin_from_spec [of 0 "[]" None qs]
  by (cases "nanargmin_from qs 0 None") (auto simp: nanargmin_def)

lemma nanargmin_Inr: "nanargmin qs = Inr k \<Longrightarrow> \<exists>v. first_min qs k v"
  using nanargmin_from_spec [of 0 "[]" None qs]
  by (cases "nanargmin_from qs 0 None") (auto simp: nanargmin_def)

lemma nanargmin_all_None: "\<forall>q\<in>set qs. q = None \<Longrightarrow> nanargmin qs = Inl ValueError_nanargmin"
proof (cases "nanargmin qs")
  case (Inl e)
  then show ?thesis using nanargmin_Inl by blast
next
  case (Inr k)
  then obtain v where "first_min qs k v" using nanargmin_Inr by blast
  then have "k < length qs" "qs ! k = Some v" by (simp_all add: first_min_def)
  moreover assume "\<forall>q\<in>set qs. q = None"
  ultimately show ?thesis using nth_mem by fastforce
qed


section \<open>Pivot selection and pivot execution\<close>


lemma find_pivot_eq:
  assumes "objectives t \<noteq> []" "rows (tableau t) \<noteq> []" "argmax (signed_objective t) = Inr c"
  shows "find_pivot t =
    (if signed_objective t ! c \<le> 0 then Inr (t\<lparr>stop_iter := True\<rparr>, 0, 0)
     else if n_rows t < n_stages t then Inl ValueError_full
     else (case nanargmin (quotients t c) of
             Inl e \<Rightarrow> Inl e
           | Inr k \<Rightarrow> Inr (t, k + n_stages t, c)))"
proof -
  obtain row0 rest where r: "rows (tableau t) = row0 # rest"
    using assms(2) by (cases "rows (tableau t)") auto
  have ne: "signed_objective t \<noteq> []"
    using assms(3) by (cases "signed_objective t") auto
  from argmax_spec [OF ne] assms(3) have c: "c < length (signed_objective t)"
    by auto
  then have c': "c < length (butlast row0)"
    using r by (simp add: signed_objective_def)
  have "signed_objective t ! c = sign_of (last (objectives t)) * row0 ! c"
    using c' r by (simp add: signed_objective_def nth_butlast)
  then show ?thesis
    using assms(1,3) r
    by (simp add: find_pivot_def quotients_def Let_def signed_objective_def)
qed

lemma length_quotients: "length (quotients t c) = n_rows t - n_stages t"
  by (simp add: quotients_def divide_where_pos_def n_rows_def)

lemma quotients_nth:
  assumes "k < n_rows t - n_stages t"
  shows "quotients t c ! k =
    (if 0 < entry t (n_stages t + k) c
     then Some (rhs t (n_stages t + k) / entry t (n_stages t + k) c) else None)"
  using assms by (simp add: quotients_def divide_where_pos_def n_rows_def)








section \<open>Right-hand sides under a pivot\<close>







section \<open>Invariants of the loop\<close>



lemma slice_idx_le: "slice_idx i L \<le> L"
  by (auto simp: slice_idx_def)











section \<open>Evaluation of the concrete tableaux\<close>








section \<open>Facts about construction\<close>

lemma init_narrow: "init narrow_tableau 2 0 = Inr narrow_start"
  by (simp add: init_def narrow_tableau_def narrow_start_def generate_col_titles_def
      str_nat.simps digit_def upt_rec)

lemma length_generate_col_titles:
  "length (generate_col_titles nv ns) = nat nv + nat ns + 1"
  by (simp add: generate_col_titles_def)

section \<open>Evaluation of the infeasible and the unbounded tableau\<close>

lemma init_infeasible: "init infeasible_tableau 2 1 = Inr infeasible_start"
  by (simp add: init_def infeasible_tableau_def infeasible_start_def generate_col_titles_def
      str_nat.simps digit_def upt_rec)

lemma iteration_infeasible: "iteration infeasible_start = Inr infeasible_stage2"
  by (simp add: eval_defs infeasible_start_def infeasible_tableau_def infeasible_stage2_def)

lemma run_simplex_infeasible: "run_simplex infeasible_start = Inr [(''P'', 0)]"
proof -
  have "run_loop 100 infeasible_start = Inr [(''P'', 0)]"
    apply (subst run_loop_numeral)
    apply (simp add: iteration_infeasible)
    apply (simp add: infeasible_start_def infeasible_stage2_def)
    apply (subst run_loop_numeral)
    apply (simp add: eval_defs)
    apply (subst run_loop_numeral)
    apply (simp add: eval_defs upt_rec)
    done
  then show ?thesis by (simp add: run_simplex_def maxiter_def)
qed

lemma init_unbounded: "init unbounded_tableau 2 0 = Inr unbounded_start"
  by (simp add: init_def unbounded_tableau_def unbounded_start_def generate_col_titles_def
      str_nat.simps digit_def upt_rec)

lemma find_pivot_unbounded: "find_pivot unbounded_start = Inl ValueError_nanargmin"
  by (simp add: eval_defs unbounded_start_def unbounded_tableau_def)

section \<open>The entering column\<close>




section \<open>The loop of run_simplex\<close>

lemma init_cycling: "init cycling_tableau 4 0 = Inr cycling_start"
  by (simp add: init_def cycling_tableau_def cycling_start_def generate_col_titles_def
      str_nat.simps digit_def upt_rec)

lemma iterate_numeral:
  "iterate (numeral k) t =
     (if objectives t = [] then None
      else (case iteration t of Inl e \<Rightarrow> None | Inr t' \<Rightarrow> iterate (pred_numeral k) t'))"
  by (simp add: numeral_eq_Suc)

lemma iterate_cycling_6: "iterate 6 cycling_start = Some cycling_start"
  apply (subst iterate_numeral)
  apply (simp add: eval_defs cycling_start_def cycling_tableau_def)
  apply (subst iterate_numeral)
  apply (simp add: eval_defs)
  apply (subst iterate_numeral)
  apply (simp add: eval_defs)
  apply (subst iterate_numeral)
  apply (simp add: eval_defs)
  apply (subst iterate_numeral)
  apply (simp add: eval_defs)
  done

lemma iterate_add:
  "iterate (m + n) t = (case iterate m t of None \<Rightarrow> None | Some t' \<Rightarrow> iterate n t')"
  by (induction m arbitrary: t) (auto split: sum.splits)

lemma iterate_cycling: "iterate (6 * k) cycling_start = Some cycling_start"
proof (induction k)
  case 0
  then show ?case by simp
next
  case (Suc k)
  have "iterate (6 * Suc k) cycling_start = iterate (6 + 6 * k) cycling_start"
    by simp
  also have "\<dots> = iterate (6 * k) cycling_start"
    unfolding iterate_add by (simp add: iterate_cycling_6)
  finally show ?case using Suc.IH by simp
qed

lemma iterate_cycling_maxiter: "iterate maxiter cycling_start \<noteq> None"
proof
  assume "iterate maxiter cycling_start = None"
  then have "iterate (maxiter + 2) cycling_start = None"
    unfolding iterate_add by simp
  moreover have "maxiter + 2 = 6 * 17"
    by (simp add: maxiter_def)
  ultimately have "iterate (6 * 17) cycling_start = None"
    by (simp only:)
  then show False
    unfolding iterate_cycling by simp
qed

lemma interpret_loop_nonempty:
  "interpret_loop t js d = Inr d' \<Longrightarrow> d \<noteq> [] \<Longrightarrow> d' \<noteq> []"
proof (induction js arbitrary: d)
  case Nil
  then show ?case by simp
next
  case (Cons i js)
  have u: "AList.update k v d \<noteq> []" for k v
    using Cons.prems(2) by (cases d) auto
  show ?case
    using Cons.prems(1) Cons.IH [OF _ u] Cons.IH [OF _ Cons.prems(2)]
    by (auto simp: Let_def split: if_splits)
qed

lemma interpret_tableau_nonempty: "interpret_tableau t \<noteq> Inr []"
proof
  assume a: "interpret_tableau t = Inr []"
  then obtain row0 where
    "interpret_loop t [0..<nat (n_vars t)] [(''P'', \<bar>last row0\<bar>)] = Inr []"
    by (auto simp: interpret_tableau_def split: list.splits if_splits)
  from interpret_loop_nonempty [OF this] show False by simp
qed

lemma run_loop_cases:
  "(case iterate n t of
      Some t' \<Rightarrow> run_loop n t = Inr []
    | None \<Rightarrow> \<exists>k<n. \<exists>t'. iterate k t = Some t' \<and>
        (if objectives t' = [] then run_loop n t = interpret_tableau t'
         else \<exists>e. iteration t' = Inl e \<and> run_loop n t = Inl e))"
proof (induction n arbitrary: t)
  case 0
  then show ?case by simp
next
  case (Suc n)
  show ?case
  proof (cases "objectives t = []")
    case True
    have "iterate 0 t = Some t \<and>
        (if objectives t = [] then run_loop (Suc n) t = interpret_tableau t
         else \<exists>e. iteration t = Inl e \<and> run_loop (Suc n) t = Inl e)"
      using True by simp
    then have "\<exists>k<Suc n. \<exists>t'. iterate k t = Some t' \<and>
        (if objectives t' = [] then run_loop (Suc n) t = interpret_tableau t'
         else \<exists>e. iteration t' = Inl e \<and> run_loop (Suc n) t = Inl e)"
      by (intro exI [of _ 0] exI [of _ t] conjI) simp_all
    then show ?thesis using True by simp
  next
    case False
    show ?thesis
    proof (cases "iteration t")
      case (Inl e)
      have "iterate 0 t = Some t \<and>
          (if objectives t = [] then run_loop (Suc n) t = interpret_tableau t
           else \<exists>e. iteration t = Inl e \<and> run_loop (Suc n) t = Inl e)"
        using False Inl by simp
      then have "\<exists>k<Suc n. \<exists>t'. iterate k t = Some t' \<and>
          (if objectives t' = [] then run_loop (Suc n) t = interpret_tableau t'
           else \<exists>e. iteration t' = Inl e \<and> run_loop (Suc n) t = Inl e)"
        by (intro exI [of _ 0] exI [of _ t] conjI) simp_all
      then show ?thesis using False Inl by simp
    next
      case (Inr t1)
      have it: "iterate (Suc n) t = iterate n t1" and rl: "run_loop (Suc n) t = run_loop n t1"
        using False Inr by simp_all
      show ?thesis
      proof (cases "iterate n t1")
        case (Some t2)
        then show ?thesis using Suc.IH [of t1] it rl by simp
      next
        case None
        with Suc.IH [of t1] obtain k t' where k: "k < n" "iterate k t1 = Some t'"
          and r: "if objectives t' = [] then run_loop n t1 = interpret_tableau t'
                  else \<exists>e. iteration t' = Inl e \<and> run_loop n t1 = Inl e"
          by auto
        have "iterate (Suc k) t = Some t'"
          using False Inr k(2) by simp
        then have "\<exists>k<Suc n. \<exists>t'. iterate k t = Some t' \<and>
            (if objectives t' = [] then run_loop (Suc n) t = interpret_tableau t'
             else \<exists>e. iteration t' = Inl e \<and> run_loop (Suc n) t = Inl e)"
          using k(1) r unfolding rl
          by (intro exI [of _ "Suc k"] exI [of _ t'] conjI) simp_all
        then show ?thesis using None it by simp
      qed
    qed
  qed
qed

section \<open>Solution extraction\<close>

lemma digit_value_digit: "d < 10 \<Longrightarrow> digit_value (digit d) = d"
proof -
  assume "d < 10"
  then have "d = 0 \<or> d = 1 \<or> d = 2 \<or> d = 3 \<or> d = 4 \<or> d = 5 \<or> d = 6 \<or> d = 7 \<or> d = 8 \<or> d = 9"
    by arith
  then show ?thesis
    by (elim disjE) (simp_all add: digit_def digit_value_def)
qed

lemma decimal_value_snoc:
  "decimal_value (s @ [ch]) = 10 * decimal_value s + digit_value ch"
  by (simp add: decimal_value_def)

lemma decimal_value_str_nat: "decimal_value (str_nat n) = n"
proof (induction n rule: str_nat.induct)
  case (1 n)
  show ?case
  proof (cases "n < 10")
    case True
    then show ?thesis
      by (subst str_nat.simps) (simp add: decimal_value_def digit_value_digit)
  next
    case False
    have "decimal_value (str_nat n) =
        10 * decimal_value (str_nat (n div 10)) + digit_value (digit (n mod 10))"
      using False by (subst str_nat.simps) (simp add: decimal_value_snoc)
    also have "\<dots> = 10 * (n div 10) + n mod 10"
      using "1.IH" [OF False] by (simp add: digit_value_digit)
    finally show ?thesis by simp
  qed
qed

lemma str_nat_inj: "str_nat m = str_nat n \<Longrightarrow> m = n"
  using decimal_value_str_nat by metis

lemma col_titles_decision:
  assumes "i < nat nv"
  shows "generate_col_titles nv ns ! i = ''x'' @ str_nat (i + 1)"
  using assms by (simp add: generate_col_titles_def nth_append)

lemma col_titles_distinct:
  assumes "i < nat nv" "j < nat nv" "generate_col_titles nv ns ! i = generate_col_titles nv ns ! j"
  shows "i = j"
proof -
  have "str_nat (i + 1) = str_nat (j + 1)"
    using assms by (simp add: col_titles_decision)
  then have "i + 1 = j + 1" by (rule str_nat_inj)
  then show ?thesis by simp
qed

lemma col_titles_not_P:
  assumes "i < nat nv"
  shows "generate_col_titles nv ns ! i \<noteq> ''P''"
  using assms by (simp add: col_titles_decision)

lemma set_nonzero: "set (nonzero xs) = {k. k < length xs \<and> xs ! k \<noteq> 0}"
  by (auto simp: nonzero_def)

lemma distinct_nonzero: "distinct (nonzero xs)"
  by (simp add: nonzero_def)

lemma nonzero_single:
  "(length (nonzero xs) = 1 \<and> nonzero xs ! 0 = k) \<longleftrightarrow>
   (k < length xs \<and> xs ! k \<noteq> 0 \<and> (\<forall>k'<length xs. k' \<noteq> k \<longrightarrow> xs ! k' = 0))"
proof
  assume a: "length (nonzero xs) = 1 \<and> nonzero xs ! 0 = k"
  then have "nonzero xs = [k]"
    by (cases "nonzero xs") auto
  then have s: "{k'. k' < length xs \<and> xs ! k' \<noteq> 0} = {k}"
    using set_nonzero [of xs] by simp
  then have "k < length xs \<and> xs ! k \<noteq> 0" by blast
  moreover have "xs ! k' = 0" if "k' < length xs" "k' \<noteq> k" for k'
  proof (rule ccontr)
    assume "xs ! k' \<noteq> 0"
    then have "k' \<in> {k'. k' < length xs \<and> xs ! k' \<noteq> 0}" using that(1) by simp
    then show False unfolding s using that(2) by simp
  qed
  ultimately show "k < length xs \<and> xs ! k \<noteq> 0 \<and> (\<forall>k'<length xs. k' \<noteq> k \<longrightarrow> xs ! k' = 0)"
    by blast
next
  assume b: "k < length xs \<and> xs ! k \<noteq> 0 \<and> (\<forall>k'<length xs. k' \<noteq> k \<longrightarrow> xs ! k' = 0)"
  have "{k'. k' < length xs \<and> xs ! k' \<noteq> 0} = {k}"
  proof (rule set_eqI)
    fix k'
    show "k' \<in> {k'. k' < length xs \<and> xs ! k' \<noteq> 0} \<longleftrightarrow> k' \<in> {k}"
      using b by (cases "k' = k") simp_all
  qed
  then have s: "set (nonzero xs) = {k}"
    by (simp add: set_nonzero)
  have "length (nonzero xs) = card (set (nonzero xs))"
    by (rule distinct_card [OF distinct_nonzero, symmetric])
  then have l: "length (nonzero xs) = 1"
    unfolding s by simp
  then obtain y where y: "nonzero xs = [y]"
    by (cases "nonzero xs") auto
  then have "y = k" using s by simp
  then show "length (nonzero xs) = 1 \<and> nonzero xs ! 0 = k"
    using l y by simp
qed

lemma unit_row_iff:
  "unit_row t i = Some k \<longleftrightarrow>
   k < n_rows t \<and> entry t k i = 1 \<and> (\<forall>k'<n_rows t. k' \<noteq> k \<longrightarrow> entry t k' i = 0)"
proof -
  let ?col = "map (\<lambda>r. r ! i) (rows (tableau t))"
  have "unit_row t i = Some k \<longleftrightarrow>
      (length (nonzero ?col) = 1 \<and> nonzero ?col ! 0 = k) \<and> entry t k i = 1"
    by (auto simp: unit_row_def Let_def)
  also have "\<dots> \<longleftrightarrow> (k < length ?col \<and> ?col ! k \<noteq> 0 \<and>
      (\<forall>k'<length ?col. k' \<noteq> k \<longrightarrow> ?col ! k' = 0)) \<and> entry t k i = 1"
    by (simp only: nonzero_single)
  also have "\<dots> \<longleftrightarrow>
      k < n_rows t \<and> entry t k i = 1 \<and> (\<forall>k'<n_rows t. k' \<noteq> k \<longrightarrow> entry t k' i = 0)"
    by (auto simp: n_rows_def)
  finally show ?thesis .
qed

lemma interpret_loop_fold:
  assumes "\<forall>i\<in>set js. i < n_cols (tableau t) \<and> i < length (col_titles t)"
  shows "interpret_loop t js d = Inr (fold (record_column t) js d)"
  using assms
proof (induction js arbitrary: d)
  case Nil
  then show ?case by simp
next
  case (Cons j js)
  have j: "j < n_cols (tableau t)" "j < length (col_titles t)"
    and rest: "\<forall>i\<in>set js. i < n_cols (tableau t) \<and> i < length (col_titles t)"
    using Cons.prems by simp_all
  have "interpret_loop t (j # js) d = interpret_loop t js (record_column t j d)"
    using j by (simp add: record_column_def unit_row_def Let_def)
  then show ?case
    using Cons.IH [OF rest] by simp
qed

lemma map_of_record_column_other:
  "key \<noteq> col_titles t ! i \<Longrightarrow> map_of (record_column t i d) key = map_of d key"
  by (simp add: record_column_def update_conv' split: option.splits)

lemma map_of_record_column_same:
  "map_of (record_column t i d) (col_titles t ! i) =
     (case unit_row t i of None \<Rightarrow> map_of d (col_titles t ! i) | Some k \<Rightarrow> Some (rhs t k))"
  by (simp add: record_column_def update_conv' split: option.splits)

lemma map_of_fold_other:
  "\<forall>i\<in>set js. col_titles t ! i \<noteq> key \<Longrightarrow>
   map_of (fold (record_column t) js d) key = map_of d key"
proof (induction js arbitrary: d)
  case Nil
  then show ?case by simp
next
  case (Cons j js)
  have "map_of (fold (record_column t) js (record_column t j d)) key =
      map_of (record_column t j d) key"
    using Cons.prems by (intro Cons.IH) simp
  also have "\<dots> = map_of d key"
    using Cons.prems by (intro map_of_record_column_other) auto
  finally show ?case by simp
qed

lemma map_of_fold_same:
  assumes "i \<in> set js" "distinct js"
    "\<forall>j\<in>set js. col_titles t ! j = col_titles t ! i \<longrightarrow> j = i"
  shows "map_of (fold (record_column t) js d) (col_titles t ! i) =
     (case unit_row t i of None \<Rightarrow> map_of d (col_titles t ! i) | Some k \<Rightarrow> Some (rhs t k))"
  using assms
proof (induction js arbitrary: d)
  case Nil
  then show ?case by simp
next
  case (Cons j js)
  show ?case
  proof (cases "i = j")
    case True
    have "i \<notin> set js" using Cons.prems(2) True by simp
    then have "\<forall>j'\<in>set js. col_titles t ! j' \<noteq> col_titles t ! i"
      using Cons.prems(3) by auto
    then have "map_of (fold (record_column t) js (record_column t i d)) (col_titles t ! i) =
        map_of (record_column t i d) (col_titles t ! i)"
      by (rule map_of_fold_other)
    then show ?thesis
      using True by (simp add: map_of_record_column_same cong: option.case_cong)
  next
    case False
    have i: "i \<in> set js" using Cons.prems(1) False by simp
    have d: "distinct js" using Cons.prems(2) by simp
    have l: "\<forall>j'\<in>set js. col_titles t ! j' = col_titles t ! i \<longrightarrow> j' = i"
      using Cons.prems(3) by simp
    have ne: "col_titles t ! i \<noteq> col_titles t ! j"
      using Cons.prems(3) False by auto
    have "map_of (fold (record_column t) js (record_column t j d)) (col_titles t ! i) =
        (case unit_row t i of None \<Rightarrow> map_of (record_column t j d) (col_titles t ! i)
         | Some k \<Rightarrow> Some (rhs t k))"
      by (rule Cons.IH [OF i d l])
    then show ?thesis
      using map_of_record_column_other [OF ne] by (simp cong: option.case_cong)
  qed
qed

lemma distinct_fold_record_column:
  "distinct (map fst d) \<Longrightarrow> distinct (map fst (fold (record_column t) js d))"
proof (induction js arbitrary: d)
  case Nil
  then show ?case by simp
next
  case (Cons j js)
  have "distinct (map fst (record_column t j d))"
    using Cons.prems by (simp add: record_column_def distinct_update split: option.splits)
  then show ?case
    using Cons.IH by simp
qed

lemma interpret_lp_final:
  "interpret_tableau lp_final = Inr [(''P'', 10), (''x1'', 2), (''x2'', 2)]"
  by (simp add: eval_defs lp_final_def lp_start_def lp_tableau_def upt_rec)

lemma interpret_tableau_fold:
  assumes "rows (tableau t) \<noteq> []" "0 < n_cols (tableau t)"
    "nat (n_vars t) \<le> n_cols (tableau t)"
    "col_titles t = generate_col_titles (n_vars t) (n_slack t)"
  shows "interpret_tableau t =
    Inr (fold (record_column t) [0..<nat (n_vars t)] [(''P'', \<bar>rhs t 0\<bar>)])"
proof -
  obtain row0 rest where r: "rows (tableau t) = row0 # rest"
    using assms(1) by (cases "rows (tableau t)") auto
  have "\<forall>i\<in>set [0..<nat (n_vars t)]. i < n_cols (tableau t) \<and> i < length (col_titles t)"
    using assms(3,4) by (simp add: length_generate_col_titles)
  then have "interpret_loop t [0..<nat (n_vars t)] [(''P'', \<bar>last row0\<bar>)] =
      Inr (fold (record_column t) [0..<nat (n_vars t)] [(''P'', \<bar>last row0\<bar>)])"
    by (rule interpret_loop_fold)
  then show ?thesis
    using r assms(2) by (simp add: interpret_tableau_def)
qed

section \<open>The scenario of the specification\<close>

text \<open>
  C1. For the problem "maximise \<open>3 x1 + 2 x2\<close> subject to \<open>x1 + x2 \<le> 4\<close>, \<open>x1 \<le> 2\<close>,
  \<open>x1, x2 \<ge> 0\<close>", construction accepts the single-phase tableau, and \<^verbatim>\<open>run_simplex\<close>
  (two pivots, then \<^verbatim>\<open>interpret_tableau\<close>) returns the dictionary with \<open>P = 10\<close>, \<open>x1 = 2\<close>
  and \<open>x2 = 2\<close>. Every intermediate value is a small integer, so the \<^verbatim>\<open>float64\<close>
  computation is the same.
\<close>

theorem run_simplex_scenario:
  "init lp_tableau 2 0 = Inr lp_start \<and>
   run_simplex lp_start = Inr [(''P'', 10), (''x1'', 2), (''x2'', 2)]"
proof -
  have "run_loop 100 lp_start = Inr [(''P'', 10), (''x1'', 2), (''x2'', 2)]"
    apply (subst run_loop_numeral)
    apply (simp add: eval_defs lp_start_def lp_tableau_def)
    apply (subst run_loop_numeral)
    apply (simp add: eval_defs)
    apply (subst run_loop_numeral)
    apply (simp add: eval_defs)
    apply (subst run_loop_numeral)
    apply (simp add: eval_defs upt_rec)
    done
  then show ?thesis
    by (simp add: init_lp_tableau run_simplex_def maxiter_def)
qed

section \<open>Right-hand sides and the pivot step\<close>






section \<open>Construction\<close>




text \<open>
  C10, as stated: when \<open>n_vars + n_artificial_vars + 1\<close> exceeds the number of columns, the
  column titles are fewer than the columns. It fails for the array with one row and two
  columns, \<open>n_vars = 2\<close> and no artificial variable: construction succeeds, \<^verbatim>\<open>n_slack\<close> is
  \<open>- 1\<close>, and there are three titles for two columns.
\<close>

theorem col_titles_more_than_columns:
  "init narrow_tableau 2 0 = Inr narrow_start \<and> n_slack narrow_start = - 1 \<and>
   length (col_titles narrow_start) = 3 \<and> n_cols (tableau narrow_start) = 2"
  by (simp add: init_narrow) (simp add: narrow_start_def narrow_tableau_def)

text \<open>
  C10, amended. \<^verbatim>\<open>__init__\<close> does not compare the declared counts with the shape: for
  every \<^verbatim>\<open>float64\<close> array with at least one column whose last column is \<open>\<ge> 0\<close>, and every
  \<open>n_vars \<ge> 2\<close> and \<open>n_artificial_vars \<ge> 0\<close>, construction succeeds with
  \<open>n_slack = shape[1] - n_vars - n_artificial_vars - 1\<close>. When
  \<open>n_vars + n_artificial_vars + 1\<close> exceeds the number of columns, \<^verbatim>\<open>n_slack\<close> is negative and
  \<^verbatim>\<open>col_titles\<close> has exactly \<open>n_vars + 1\<close> entries, which is fewer than the number of columns
  only if the array has more than \<open>n_vars + 1\<close> columns.
\<close>

theorem init_no_shape_check:
  assumes "dtype a = float64" "0 < n_cols a" "list_all (\<lambda>r. 0 \<le> last r) (rows a)"
    "2 \<le> nv" "0 \<le> na"
  shows "\<exists>t. init a nv na = Inr t \<and> n_slack t = int (n_cols a) - nv - na - 1 \<and>
    (int (n_cols a) < nv + na + 1 \<longrightarrow>
       n_slack t < 0 \<and> length (col_titles t) = nat nv + 1 \<and>
       (length (col_titles t) < n_cols a \<longleftrightarrow> nat nv + 1 < n_cols a))"
  using assms by (simp add: init_def length_generate_col_titles)

theorem init_no_shape_check_witness:
  "dtype two_phase_tableau = float64 \<and> 0 < n_cols two_phase_tableau \<and>
   list_all (\<lambda>r. 0 \<le> last r) (rows two_phase_tableau) \<and>
   (\<exists>t. init two_phase_tableau 2 5 = Inr t \<and> n_slack t = - 4 \<and> length (col_titles t) = 3)"
proof -
  have h: "dtype two_phase_tableau = float64" "0 < n_cols two_phase_tableau"
    "list_all (\<lambda>r. 0 \<le> last r) (rows two_phase_tableau)"
    by (simp_all add: two_phase_tableau_def)
  have n: "n_cols two_phase_tableau = 4"
    by (simp add: two_phase_tableau_def)
  show ?thesis
    using init_no_shape_check [OF h, of 2 5] h unfolding n by auto
qed

section \<open>Infeasible and unbounded problems\<close>

text \<open>
  C8, as stated: when the first phase ends with a residual artificial value \<open>> 0\<close>, the
  solver reports infeasibility and returns no normal-looking result. It fails on the
  infeasible problem above: construction accepts the tableau, the first iteration finds
  no improving column and changes the stage with the residual 5 in row 0, and the run
  returns the ordinary dictionary \<^verbatim>\<open>{"P": 0}\<close>.
\<close>

theorem infeasible_returns_solution:
  "init infeasible_tableau 2 1 = Inr infeasible_start \<and>
   rhs infeasible_start 0 = 5 \<and>
   iteration infeasible_start = Inr infeasible_stage2 \<and>
   run_simplex infeasible_start = Inr [(''P'', 0)]"
  by (simp add: init_infeasible iteration_infeasible run_simplex_infeasible)
    (simp add: infeasible_start_def infeasible_tableau_def)

text \<open>
  C8, amended. At the stage transition of a two-phase problem the solver makes no test of
  the residual artificial value: when another objective remains, \<^verbatim>\<open>change_stage\<close> pops the
  finished objective, deletes the artificial columns and row 0 whatever row 0 holds (its
  result does not depend on that row), sets \<^verbatim>\<open>n_stages\<close> to 1 and \<^verbatim>\<open>n_artificial_vars\<close> to 0
  and clears the stop flag, and the run goes on with the remaining objective.
\<close>

theorem change_stage_ignores_residual:
  assumes "2 \<le> length (objectives t)" "rows (tableau t) = row0 # rest"
  shows "change_stage t = Inr (t\<lparr>
    tableau := (tableau t)\<lparr>
      n_cols := length (delete_slice (- n_artificial_vars t - 1) (- 1)
                  (replicate (n_cols (tableau t)) (0::rat))),
      rows := map (delete_slice (- n_artificial_vars t - 1) (- 1)) rest\<rparr>,
    objectives := butlast (objectives t),
    n_stages := 1,
    n_artificial_vars := 0,
    stop_iter := False\<rparr>)"
proof -
  have "objectives t \<noteq> []" "butlast (objectives t) \<noteq> []"
    using assms(1) by (cases "objectives t"; cases "tl (objectives t)"; auto)+
  then show ?thesis
    using assms(2) by (simp add: change_stage_def Let_def)
qed

theorem change_stage_ignores_residual_witness:
  "2 \<le> length (objectives infeasible_start) \<and>
   rows (tableau infeasible_start) =
     [0, 0, 0, 0, 5] # [[- 1, - 1, 0, 0, 0], [1, 1, 1, 0, 4], [0, 0, 0, 1, 5]] \<and>
   change_stage infeasible_start = Inr infeasible_stage2"
proof -
  have h: "2 \<le> length (objectives infeasible_start)"
    "rows (tableau infeasible_start) =
       [0, 0, 0, 0, 5] # [[- 1, - 1, 0, 0, 0], [1, 1, 1, 0, 4], [0, 0, 0, 1, 5]]"
    by (simp_all add: infeasible_start_def infeasible_tableau_def)
  have "change_stage infeasible_start = Inr infeasible_stage2"
    unfolding change_stage_ignores_residual [OF h]
    by (simp add: infeasible_start_def infeasible_tableau_def infeasible_stage2_def
        delete_slice_def slice_idx_def)
  then show ?thesis using h by simp
qed

text \<open>
  C4. When \<^verbatim>\<open>find_pivot\<close> has an improving entering column \<open>c\<close> and no constraint row has
  a positive entry in that column, it raises the \<^verbatim>\<open>ValueError\<close> of \<^verbatim>\<open>np.nanargmin\<close> (or of
  \<^verbatim>\<open>np.full\<close>, when the tableau has fewer rows than \<^verbatim>\<open>n_stages\<close>); nothing catches it, so
  the iteration and \<^verbatim>\<open>run_simplex\<close> end with that exception and return no dictionary.
\<close>

theorem unbounded_raises:
  assumes "objectives t \<noteq> []" "rows (tableau t) \<noteq> []"
    "argmax (signed_objective t) = Inr c" "0 < signed_objective t ! c"
    "\<forall>i. n_stages t \<le> i \<and> i < n_rows t \<longrightarrow> entry t i c \<le> 0"
  shows "\<exists>e. (e = ValueError_nanargmin \<or> e = ValueError_full) \<and>
    find_pivot t = Inl e \<and> iteration t = Inl e \<and>
    (\<forall>n. run_loop (Suc n) t = Inl e) \<and> run_simplex t = Inl e"
proof -
  have "\<forall>q\<in>set (quotients t c). q = None"
  proof
    fix q assume "q \<in> set (quotients t c)"
    then obtain k where k: "k < n_rows t - n_stages t" and q: "q = quotients t c ! k"
      by (auto simp: in_set_conv_nth length_quotients)
    have "entry t (n_stages t + k) c \<le> 0"
      using assms(5) k by simp
    then show "q = None"
      using quotients_nth [OF k, of c] q by simp
  qed
  then have na: "nanargmin (quotients t c) = Inl ValueError_nanargmin"
    by (rule nanargmin_all_None)
  define e where "e = (if n_rows t < n_stages t then ValueError_full else ValueError_nanargmin)"
  have fp: "find_pivot t = Inl e"
    using find_pivot_eq [OF assms(1,2,3)] assms(4) na by (simp add: e_def)
  then have it: "iteration t = Inl e"
    by (simp add: iteration_def)
  then have rl: "\<And>n. run_loop (Suc n) t = Inl e"
    using assms(1) by simp
  have "run_simplex t = Inl e"
    using rl [of 99] by (simp add: run_simplex_def maxiter_def)
  then show ?thesis
    using fp it rl by (auto simp: e_def)
qed

theorem unbounded_raises_witness:
  "init unbounded_tableau 2 0 = Inr unbounded_start \<and>
   argmax (signed_objective unbounded_start) = Inr 0 \<and>
   0 < signed_objective unbounded_start ! 0 \<and>
   entry unbounded_start 1 0 \<le> 0 \<and>
   run_simplex unbounded_start = Inl ValueError_nanargmin"
proof -
  have h: "objectives unbounded_start \<noteq> []" "rows (tableau unbounded_start) \<noteq> []"
    "argmax (signed_objective unbounded_start) = Inr 0"
    "0 < signed_objective unbounded_start ! 0"
    by (simp_all add: unbounded_start_def unbounded_tableau_def signed_objective_def sign_of_def)
  have e: "entry unbounded_start 1 0 \<le> 0"
    by (simp add: unbounded_start_def unbounded_tableau_def)
  have n: "n_stages unbounded_start = 1" "n_rows unbounded_start = 2"
    by (simp_all add: unbounded_start_def unbounded_tableau_def n_rows_def)
  have a: "\<forall>i. n_stages unbounded_start \<le> i \<and> i < n_rows unbounded_start \<longrightarrow>
      entry unbounded_start i 0 \<le> 0"
  proof (intro allI impI)
    fix i assume "n_stages unbounded_start \<le> i \<and> i < n_rows unbounded_start"
    then have "i = 1" unfolding n by arith
    then show "entry unbounded_start i 0 \<le> 0" using e by simp
  qed
  from unbounded_raises [OF h a] obtain e' where
    "find_pivot unbounded_start = Inl e'" "run_simplex unbounded_start = Inl e'"
    by blast
  then have "run_simplex unbounded_start = Inl ValueError_nanargmin"
    using find_pivot_unbounded by simp
  then show ?thesis
    using init_unbounded h e by simp
qed

section \<open>The selection rule\<close>




section \<open>The iteration budget\<close>

text \<open>
  C7. \<^verbatim>\<open>run_simplex\<close> is a loop of at most \<open>maxiter = 100\<close> iterations, each of them one call
  of total functions, so it always ends. If all 100 iterations run (the objective stack
  is not empty at the start of any of them and none raises), it returns the empty
  dictionary. Otherwise it stops at an iteration \<open>k < 100\<close>: with the dictionary of
  \<^verbatim>\<open>interpret_tableau\<close> when the stack is empty there, with the exception of that iteration
  otherwise. The dictionary of \<^verbatim>\<open>interpret_tableau\<close> is never empty (it has the key \<^verbatim>\<open>"P"\<close>),
  so the empty dictionary is returned only when the budget is exhausted.
\<close>

theorem run_simplex_budget:
  "maxiter = 100 \<and>
   (iterate maxiter t \<noteq> None \<longrightarrow> run_simplex t = Inr []) \<and>
   (iterate maxiter t = None \<longrightarrow>
      (\<exists>k<maxiter. \<exists>t'. iterate k t = Some t' \<and>
         (if objectives t' = [] then run_simplex t = interpret_tableau t'
          else \<exists>e. iteration t' = Inl e \<and> run_simplex t = Inl e))) \<and>
   interpret_tableau u \<noteq> Inr []"
proof (intro conjI impI)
  show "maxiter = 100" by (rule maxiter_def)
  show "run_simplex t = Inr []" if "iterate maxiter t \<noteq> None"
    using that run_loop_cases [of maxiter t] by (auto simp: run_simplex_def)
  show "\<exists>k<maxiter. \<exists>t'. iterate k t = Some t' \<and>
         (if objectives t' = [] then run_simplex t = interpret_tableau t'
          else \<exists>e. iteration t' = Inl e \<and> run_simplex t = Inl e)"
    if "iterate maxiter t = None"
  proof -
    have "case iterate maxiter t of
        Some t' \<Rightarrow> run_loop maxiter t = Inr []
      | None \<Rightarrow> \<exists>k<maxiter. \<exists>t'. iterate k t = Some t' \<and>
          (if objectives t' = [] then run_loop maxiter t = interpret_tableau t'
           else \<exists>e. iteration t' = Inl e \<and> run_loop maxiter t = Inl e)"
      by (rule run_loop_cases)
    then show ?thesis
      unfolding that run_simplex_def by (simp only: option.case)
  qed
  show "interpret_tableau u \<noteq> Inr []" by (rule interpret_tableau_nonempty)
qed

theorem run_simplex_budget_witness:
  "init cycling_tableau 4 0 = Inr cycling_start \<and>
   iterate maxiter cycling_start \<noteq> None \<and> run_simplex cycling_start = Inr []"
  using run_simplex_budget [of cycling_start] init_cycling iterate_cycling_maxiter by simp

section \<open>The result dictionary\<close>

text \<open>
  C9. For an object with at least one row whose \<^verbatim>\<open>n_vars\<close> does not exceed the number of
  columns and whose titles are the generated ones, \<^verbatim>\<open>interpret_tableau\<close> returns a
  dictionary with distinct keys in which \<^verbatim>\<open>"P"\<close> is the absolute value of the right-hand
  side of row 0; a decision variable's title is mapped to the right-hand side of row \<open>k\<close>
  when its column has 1 in row \<open>k\<close> and 0 in every other row, and is absent when the
  column is not of that form; and there is no other key. The function reads the object
  and changes nothing, so a second call on the same object returns the same dictionary.
\<close>

theorem interpret_tableau_result:
  assumes "rows (tableau t) \<noteq> []" "0 < n_cols (tableau t)"
    "nat (n_vars t) \<le> n_cols (tableau t)"
    "col_titles t = generate_col_titles (n_vars t) (n_slack t)"
  shows "\<exists>d. interpret_tableau t = Inr d \<and> distinct (map fst d) \<and>
    map_of d ''P'' = Some \<bar>rhs t 0\<bar> \<and>
    (\<forall>i<nat (n_vars t).
       (\<forall>k. k < n_rows t \<and> entry t k i = 1 \<and> (\<forall>k'<n_rows t. k' \<noteq> k \<longrightarrow> entry t k' i = 0) \<longrightarrow>
            map_of d (col_titles t ! i) = Some (rhs t k)) \<and>
       ((\<nexists>k. k < n_rows t \<and> entry t k i = 1 \<and> (\<forall>k'<n_rows t. k' \<noteq> k \<longrightarrow> entry t k' i = 0)) \<longrightarrow>
            map_of d (col_titles t ! i) = None)) \<and>
    (\<forall>key. map_of d key \<noteq> None \<longrightarrow>
       key = ''P'' \<or> (\<exists>i<nat (n_vars t). key = col_titles t ! i))"
proof -
  let ?js = "[0..<nat (n_vars t)]"
  let ?start = "[(''P'', \<bar>rhs t 0\<bar>)]"
  let ?d = "fold (record_column t) ?js ?start"
  have lab: "\<And>i. i < nat (n_vars t) \<Longrightarrow> col_titles t ! i \<noteq> ''P''"
    unfolding assms(4) by (rule col_titles_not_P)
  have inj: "\<And>i j. i < nat (n_vars t) \<Longrightarrow> j < nat (n_vars t) \<Longrightarrow>
      col_titles t ! j = col_titles t ! i \<Longrightarrow> j = i"
    unfolding assms(4) by (rule col_titles_distinct)
  have a: "interpret_tableau t = Inr ?d"
    by (rule interpret_tableau_fold [OF assms])
  have b: "distinct (map fst ?d)"
    by (rule distinct_fold_record_column) simp
  have "map_of ?d ''P'' = map_of ?start ''P''"
    using lab by (intro map_of_fold_other) auto
  then have c: "map_of ?d ''P'' = Some \<bar>rhs t 0\<bar>"
    by simp
  have look: "map_of ?d (col_titles t ! i) =
      (case unit_row t i of None \<Rightarrow> None | Some k \<Rightarrow> Some (rhs t k))"
    if i: "i < nat (n_vars t)" for i
  proof -
    have "map_of ?d (col_titles t ! i) =
        (case unit_row t i of None \<Rightarrow> map_of ?start (col_titles t ! i)
         | Some k \<Rightarrow> Some (rhs t k))"
      using i inj [OF i] by (intro map_of_fold_same) auto
    then show ?thesis
      using lab [OF i] by (simp cong: option.case_cong)
  qed
  have d1: "map_of ?d (col_titles t ! i) = Some (rhs t k)"
    if "i < nat (n_vars t)"
      "k < n_rows t \<and> entry t k i = 1 \<and> (\<forall>k'<n_rows t. k' \<noteq> k \<longrightarrow> entry t k' i = 0)"
    for i k
  proof -
    have "unit_row t i = Some k" using that(2) by (rule unit_row_iff [THEN iffD2])
    then show ?thesis using look [OF that(1)] by simp
  qed
  have d2: "map_of ?d (col_titles t ! i) = None"
    if "i < nat (n_vars t)"
      "\<nexists>k. k < n_rows t \<and> entry t k i = 1 \<and> (\<forall>k'<n_rows t. k' \<noteq> k \<longrightarrow> entry t k' i = 0)"
    for i
  proof (cases "unit_row t i")
    case None
    then show ?thesis using look [OF that(1)] by simp
  next
    case (Some k)
    then have "k < n_rows t \<and> entry t k i = 1 \<and> (\<forall>k'<n_rows t. k' \<noteq> k \<longrightarrow> entry t k' i = 0)"
      by (rule unit_row_iff [THEN iffD1])
    then show ?thesis using that(2) by blast
  qed
  have e: "key = ''P'' \<or> (\<exists>i<nat (n_vars t). key = col_titles t ! i)"
    if "map_of ?d key \<noteq> None" for key
  proof (rule ccontr)
    assume n: "\<not> (key = ''P'' \<or> (\<exists>i<nat (n_vars t). key = col_titles t ! i))"
    then have "\<forall>i\<in>set ?js. col_titles t ! i \<noteq> key" by auto
    then have "map_of ?d key = map_of ?start key" by (rule map_of_fold_other)
    then show False using that n by simp
  qed
  show ?thesis
    apply (rule exI [of _ ?d])
    apply (intro conjI allI impI)
         apply (rule a)
        apply (rule b)
       apply (rule c)
      apply (erule (1) d1)
     apply (erule (1) d2)
    apply (erule e)
    done
qed

theorem interpret_tableau_result_witness:
  "rows (tableau lp_final) \<noteq> [] \<and> 0 < n_cols (tableau lp_final) \<and>
   nat (n_vars lp_final) \<le> n_cols (tableau lp_final) \<and>
   col_titles lp_final = generate_col_titles (n_vars lp_final) (n_slack lp_final) \<and>
   interpret_tableau lp_final = Inr [(''P'', 10), (''x1'', 2), (''x2'', 2)] \<and>
   map_of [(''P'', 10), (''x1'', 2), (''x2'', 2)] ''P'' = Some \<bar>rhs lp_final 0\<bar>"
proof -
  have h: "rows (tableau lp_final) \<noteq> []" "0 < n_cols (tableau lp_final)"
    "nat (n_vars lp_final) \<le> n_cols (tableau lp_final)"
    "col_titles lp_final = generate_col_titles (n_vars lp_final) (n_slack lp_final)"
    by (simp_all add: lp_final_def lp_start_def lp_tableau_def generate_col_titles_def
        str_nat.simps digit_def upt_rec)
  from interpret_tableau_result [OF h] obtain d where
    d: "interpret_tableau lp_final = Inr d" and p: "map_of d ''P'' = Some \<bar>rhs lp_final 0\<bar>"
    by (elim exE conjE)
  have "d = [(''P'', 10), (''x1'', 2), (''x2'', 2)]"
    using d unfolding interpret_lp_final by simp
  then show ?thesis
    using h p interpret_lp_final by simp
qed

end
